theory Spec2Isabelle
  imports Main "HOL-Library.Word"
begin

unbundle bit_operations_syntax

section \<open>PS/2 keyboard firmware (keyboard.c): data model\<close>

text \<open>
  The firmware is compiled by SDCC for an 8051: \<open>unsigned char\<close> has 8 bits,
  \<open>int\<close> and \<open>unsigned int\<close> have 16 bits, \<open>uint32_t\<close> has 32 bits.
\<close>

type_synonym uchar = "8 word"
type_synonym u16 = "16 word"
type_synonym u32 = "32 word"

text \<open>The \<open>#define\<close>s of lines 34-39. \<open>BREAK\<close> is an argument of \<open>delay_us(int)\<close>.\<close>

definition BREAK :: int where "BREAK = 336"
definition EXT :: u16 where "EXT = 0x02E0"
definition REL :: u16 where "REL = 0x03F0"
definition ACK :: u16 where "ACK = 0x03FA"
definition RE :: u16 where "RE = 0x02FE"
definition NA :: u16 where "NA = 0x0300"

text \<open>The scan-code table of lines 45-60, row by row as in the source.\<close>

definition KEY_SCAN_CODES :: "u32 list list" where
  "KEY_SCAN_CODES =
   [[0x0314, 0x0312, 0x0258, 0x020d, 0x020e, 0x0276],
    [0xe0021f, 0x021a, 0x021c, 0x0215, 0x0216, 0x00],
    [0x0311, 0x0322, 0x031b, 0x031d, 0x031e, 0x0305],
    [0x00, 0x0321, 0x0223, 0x0324, 0x0226, 0x0306],
    [0x00, 0x022a, 0x032b, 0x032d, 0x0225, 0x0204],
    [0x00, 0x0232, 0x0234, 0x022c, 0x032e, 0x030c],
    [0x0229, 0x0231, 0x0333, 0x0335, 0x0336, 0x00],
    [0x00, 0x033a, 0x023b, 0x033c, 0x023d, 0x0303],
    [0x00, 0x0341, 0x0342, 0x0243, 0x023e, 0x020b],
    [0xe00311, 0x0249, 0x034b, 0x0344, 0x0246, 0x0283],
    [0xe00327, 0x024a, 0x024c, 0x034d, 0x0245, 0x030a],
    [0xe0022f, 0x00, 0x0252, 0x0254, 0x034e, 0x0201],
    [0x00, 0x00, 0x0378, 0x025b, 0x0355, 0x0309],
    [0xe00314, 0x0359, 0x035a, 0x025d, 0x0366, 0x0207]]"

text \<open>
  What the firmware does on the bus, in the order it does it: a call of \<open>transmit\<close>
  with its argument, a call of \<open>delay_us\<close> made between frames (the per-bit clock
  delays inside \<open>transmit\<close> and \<open>receive\<close> belong to the frame and are not
  listed), and a completed \<open>receive\<close>.
\<close>

datatype event = Frame u16 | Delay int | Receive

text \<open>
  The globals of lines 61-64, the Caps-Lock LED pin \<open>P2_3\<close>, the array
  \<open>keyStamps\<close> of \<open>main\<close> (indexed by column \<open>i\<close> and row \<open>j\<close>) and the
  bus activity so far. \<open>ELAPSED_TIME\<close> is written by the timer interrupt only; the
  main program's reads of it are inputs of the model.
\<close>

record kbd =
  LAST_BYTE :: u16
  ENABLE :: uchar
  REPEAT_RATE :: uchar
  REPEAT_DELAY :: uchar
  P2_3 :: bool
  keyStamps :: "nat \<times> nat \<Rightarrow> uchar"
  wire :: "event list"

text \<open>
  The state after the initialisers of lines 61-64 and \<open>P2 = 0x0f\<close> of line 299.
  \<open>keyStamps\<close> is a local array that \<open>main\<close> never initialises, so its first
  contents are a parameter.
\<close>

definition boot :: "(nat \<times> nat \<Rightarrow> uchar) \<Rightarrow> kbd" where
  "boot ks = \<lparr>LAST_BYTE = 0x00, ENABLE = 1, REPEAT_RATE = 50, REPEAT_DELAY = 100,
              P2_3 = True, keyStamps = ks, wire = []\<rparr>"

text \<open>All keys released.\<close>

definition released :: "nat \<times> nat \<Rightarrow> uchar" where
  "released k = 0"

primrec steps :: "('s \<Rightarrow> 's) list \<Rightarrow> 's \<Rightarrow> 's" where
  "steps [] s = s"
| "steps (f # fs) s = steps fs (f s)"

section \<open>Timer tick (lines 68-73)\<close>

definition timer2Int :: "uchar \<Rightarrow> uchar" where
  "timer2Int ELAPSED_TIME =
     (let e = ELAPSED_TIME + 1 in if e > 127 then 0 else e)"

section \<open>Bit transceiver (lines 77-138)\<close>

definition delay_us :: "int \<Rightarrow> kbd \<Rightarrow> kbd" where
  "delay_us us st = st\<lparr>wire := wire st @ [Delay us]\<rparr>"

text \<open>
  The loop of lines 103-113: each round puts bit 0 of \<open>keycode\<close> on the data line
  (\<open>P2 = keycode | 0x02\<close>), pulses the clock and shifts \<open>keycode\<close> right. The
  result is the list of data-line levels, in the order they are clocked out.
\<close>

function transmit_loop :: "nat \<Rightarrow> u16 \<Rightarrow> bool list" where
  "transmit_loop index keycode =
     (if index < 11 then bit keycode 0 # transmit_loop (Suc index) (drop_bit 1 keycode)
      else [])"
  by pat_completeness auto
termination
  by (relation "measure (\<lambda>(index, keycode). 11 - index)") auto

text \<open>Line 100 (\<open>keycode <<= 1\<close>, the start bit) and the loop.\<close>

definition line_bits :: "u16 \<Rightarrow> bool list" where
  "line_bits keycode = transmit_loop 0 (push_bit 1 keycode)"

text \<open>
  \<open>transmit\<close> (lines 96-116) records its argument in \<open>LAST_BYTE\<close> and clocks out
  \<open>line_bits keycode\<close>. The save and restore of the other pins of port 2 is not
  modelled.
\<close>

definition transmit :: "u16 \<Rightarrow> kbd \<Rightarrow> kbd" where
  "transmit keycode st = st\<lparr>LAST_BYTE := keycode, wire := wire st @ [Frame keycode]\<rparr>"

text \<open>
  \<open>receive\<close> (lines 119-138) reads port 2. The input of the model is the list of
  the values the port shows at its successive reads; each test of the waiting loop of
  line 122 takes one of them, each round of the loop of lines 125-131 takes one. When
  the list runs out the function has not returned: the result is \<open>None\<close>.
\<close>

fun wait_rts :: "uchar list \<Rightarrow> uchar list option" where
  "wait_rts [] = None"
| "wait_rts (p2 # pins) =
     (if \<not> (p2 AND 0x02 \<noteq> 0 \<and> \<not> (p2 AND 0x01 \<noteq> 0)) then wait_rts pins else Some pins)"

function receive_loop :: "nat \<Rightarrow> u16 \<Rightarrow> uchar list \<Rightarrow> (u16 \<times> uchar list) option" where
  "receive_loop index buffer pins =
     (if index < 10 then
        (case pins of
           [] \<Rightarrow> None
         | p2 # pins' \<Rightarrow>
             receive_loop (Suc index) (buffer OR push_bit index (ucast (p2 AND 0x01))) pins')
      else Some (buffer, pins))"
  by pat_completeness auto
termination
  by (relation "measure (\<lambda>(index, buffer, pins). 10 - index)") auto

definition receive :: "uchar list \<Rightarrow> (u16 \<times> uchar list) option" where
  "receive pins = (case wait_rts pins of None \<Rightarrow> None | Some pins' \<Rightarrow> receive_loop 0 0 pins')"

section \<open>Frame encoder (lines 141-175)\<close>

definition sendCode :: "u32 \<Rightarrow> uchar \<Rightarrow> kbd \<Rightarrow> kbd" where
  "sendCode keycode keyState st =
     (if keyState \<noteq> 0 then
        (if keycode AND 0xff0000 = 0xe00000 then
           steps [transmit EXT, delay_us BREAK, transmit (ucast keycode), delay_us BREAK] st
         else
           steps [transmit (ucast keycode), delay_us BREAK] st)
      else
        (if keycode AND 0xff0000 = 0xe00000 then
           steps [transmit EXT, delay_us BREAK, transmit REL, delay_us BREAK,
                  transmit (ucast keycode), delay_us BREAK] st
         else
           steps [transmit REL, delay_us BREAK, transmit (ucast keycode), delay_us BREAK] st))"

section \<open>Command interpreter (lines 178-273)\<close>

text \<open>
  \<open>followCommand\<close> either returns, with the port readings it has not used, or is
  still inside \<open>receive\<close> when the readings run out; in both cases the state holds
  what it has done so far.
\<close>

datatype outcome = Returned kbd "uchar list" | Blocked kbd

primrec state_of :: "outcome \<Rightarrow> kbd" where
  "state_of (Returned st pins) = st"
| "state_of (Blocked st) = st"

text \<open>\<open>arg = receive();\<close> followed by the rest of the case.\<close>

definition read_arg :: "uchar list \<Rightarrow> kbd \<Rightarrow> (u16 \<Rightarrow> kbd \<Rightarrow> kbd) \<Rightarrow> outcome" where
  "read_arg pins st rest =
     (case receive pins of
        None \<Rightarrow> Blocked st
      | Some (arg, pins') \<Rightarrow> Returned (rest arg (st\<lparr>wire := wire st @ [Receive]\<rparr>)) pins')"

definition followCommand :: "u16 \<Rightarrow> uchar list \<Rightarrow> kbd \<Rightarrow> outcome" where
  "followCommand command0 pins st =
     (let command = command0 AND 0xff in
      if command = 0xed then
        read_arg pins (transmit ACK st)
          (\<lambda>arg st. (transmit ACK st)\<lparr>P2_3 := (arg AND 0x04 \<noteq> 0)\<rparr>)
      else if command = 0xee then
        Returned (transmit 0x03ee st) pins
      else if command = 0xf0 then
        read_arg pins (transmit ACK st)
          (\<lambda>arg st. let st = transmit ACK st in
                     if arg AND 0xff = 0 then transmit 0x0341 st else st)
      else if command = 0xf2 then
        Returned (steps [transmit ACK, transmit 0x02ab, delay_us BREAK, transmit 0x0283] st) pins
      else if command = 0xf3 then
        read_arg pins (transmit ACK st)
          (\<lambda>arg st.
             let st = transmit ACK st;
                 st = (if arg AND 0x1f \<ge> 0x18 \<and> arg AND 0x1f \<le> 0x1f then st\<lparr>REPEAT_RATE := 50\<rparr>
                       else if arg AND 0x1f \<ge> 0x10 \<and> arg AND 0x1f \<le> 0x17 then st\<lparr>REPEAT_RATE := 25\<rparr>
                       else if arg AND 0x1f \<ge> 0x08 \<and> arg AND 0x1f \<le> 0x0f then st\<lparr>REPEAT_RATE := 12\<rparr>
                       else if arg AND 0x1f \<ge> 0x04 \<and> arg AND 0x1f \<le> 0x07 then st\<lparr>REPEAT_RATE := 6\<rparr>
                       else st\<lparr>REPEAT_RATE := 3\<rparr>)
             in if arg AND 0x60 = 0x20 then st\<lparr>REPEAT_DELAY := 50\<rparr>
                else if arg AND 0x60 = 0x40 then st\<lparr>REPEAT_DELAY := 75\<rparr>
                else if arg AND 0x60 = 0x60 then st\<lparr>REPEAT_DELAY := 100\<rparr>
                else st\<lparr>REPEAT_DELAY := 25\<rparr>)
      else if command = 0xf4 then
        Returned ((transmit ACK st)\<lparr>ENABLE := 1\<rparr>) pins
      else if command = 0xf5 then
        Returned ((transmit ACK st)\<lparr>ENABLE := 0\<rparr>) pins
      else if command = 0xfe then
        Returned (let st = transmit ACK st in transmit (LAST_BYTE st) st) pins
      else if command = 0xff then
        Returned (steps [transmit ACK, delay_us BREAK, transmit 0x03aa] st) pins
      else if command = 0xf6 \<or> command = 0xf7 \<or> command = 0xf8 \<or> command = 0xf9
              \<or> command = 0xfa then
        Returned (transmit ACK st) pins
      else if command = 0xfb \<or> command = 0xfc \<or> command = 0xfd then
        read_arg pins (transmit ACK st) (\<lambda>arg st. transmit ACK st)
      else
        Returned (transmit RE st) pins)"

section \<open>Scanner and typematic engine (lines 317-364)\<close>

text \<open>
  The body of the inner loop for one matrix position (lines 328-350), as a function of
  what it reads: \<open>REPEAT_RATE\<close>, \<open>REPEAT_DELAY\<close>, port 0, the row index \<open>j\<close>, the
  tick counter and the position's \<open>keyStamps\<close> cell. It gives the call of
  \<open>sendCode\<close> it makes, if any, named by its place in the source, and the new value
  of the cell. Each branch reads \<open>ELAPSED_TIME\<close> once or several times in a row,
  with no function call in between; the timer interrupt is taken not to fire between
  these reads, so that one reading stands for all of them.
\<close>

datatype call = Press | Repeat | Release

text \<open>The second argument of \<open>sendCode\<close> at lines 331, 343 and 348.\<close>

primrec keyState_of :: "call \<Rightarrow> uchar" where
  "keyState_of Press = 1"
| "keyState_of Repeat = 1"
| "keyState_of Release = 0"

text \<open>
  The two elapsed times of lines 336 and 337, in \<open>int\<close> arithmetic (the operands are
  promoted from \<open>unsigned char\<close>).
\<close>

definition elapsed_direct :: "uchar \<Rightarrow> uchar \<Rightarrow> int" where
  "elapsed_direct stamp ELAPSED_TIME = uint ELAPSED_TIME - uint stamp"

definition elapsed_wrapped :: "uchar \<Rightarrow> uchar \<Rightarrow> int" where
  "elapsed_wrapped stamp ELAPSED_TIME = (127 - uint stamp) + uint ELAPSED_TIME"

text \<open>
  \<open>ELAPSED_TIME % REPEAT_RATE\<close> divides by \<open>REPEAT_RATE\<close>, which the firmware only
  ever sets to 50, 25, 12, 6 or 3 (\<open>mod\<close> by 0 is the identity in HOL).
\<close>

definition scanCell ::
  "uchar \<Rightarrow> uchar \<Rightarrow> uchar \<Rightarrow> nat \<Rightarrow> uchar \<Rightarrow> uchar \<Rightarrow> call option \<times> uchar" where
  "scanCell RATE DELAY P0 j ELAPSED_TIME stamp =
     (if P0 AND push_bit j 0x01 \<noteq> 0 then
        (if stamp = 0 then (Some Press, ELAPSED_TIME)
         else if stamp \<ge> 128
                 \<or> (ELAPSED_TIME > stamp \<and> elapsed_direct stamp ELAPSED_TIME \<ge> uint DELAY)
                 \<or> (ELAPSED_TIME < stamp \<and> elapsed_wrapped stamp ELAPSED_TIME \<ge> uint DELAY)
         then
           (let stamp = stamp OR 0x80 in
            if ELAPSED_TIME mod RATE = 0 \<and> stamp AND 0x7f \<noteq> ELAPSED_TIME
            then (Some Repeat, 0x80 OR ELAPSED_TIME)
            else (None, stamp))
         else (None, stamp))
      else if stamp \<noteq> 0 then (Some Release, 0)
      else (None, stamp))"

text \<open>
  Lines 328-350 on the state: the cell of position \<open>(i, j)\<close> is updated and
  \<open>sendCode\<close> is called with the table entry of the position.
\<close>

definition visit_key :: "nat \<Rightarrow> nat \<Rightarrow> uchar \<Rightarrow> uchar \<Rightarrow> kbd \<Rightarrow> kbd" where
  "visit_key i j P0 ELAPSED_TIME st =
     (case scanCell (REPEAT_RATE st) (REPEAT_DELAY st) P0 j ELAPSED_TIME (keyStamps st (i, j)) of
        (c, stamp) \<Rightarrow>
          (let st = st\<lparr>keyStamps := (keyStamps st)((i, j) := stamp)\<rparr> in
           case c of
             None \<Rightarrow> st
           | Some k \<Rightarrow> sendCode (KEY_SCAN_CODES ! i ! j) (keyState_of k) st))"

text \<open>
  What the scanner reads while it is at one position: port 2 for the test of line 325,
  port 0 and the tick counter.
\<close>

record reading =
  P2_in :: uchar
  P0_in :: uchar
  tick_in :: uchar

text \<open>
  The loops of lines 321-363. The flag is \<open>False\<close> when the pass was left by
  \<open>goto start\<close> (the clock line was found low); what was done before stays done.
\<close>

function scan_rows :: "nat \<Rightarrow> nat \<Rightarrow> (nat \<times> nat \<Rightarrow> reading) \<Rightarrow> kbd \<Rightarrow> bool \<times> kbd" where
  "scan_rows i j inp st =
     (if j < 6 then
        (if P2_in (inp (i, j)) AND 0x02 = 0 then (False, st)
         else scan_rows i (Suc j) inp
                (visit_key i j (P0_in (inp (i, j))) (tick_in (inp (i, j))) st))
      else (True, st))"
  by pat_completeness auto
termination
  by (relation "measure (\<lambda>(i, j, inp, st). 6 - j)") auto

function scan_columns :: "nat \<Rightarrow> (nat \<times> nat \<Rightarrow> reading) \<Rightarrow> kbd \<Rightarrow> bool \<times> kbd" where
  "scan_columns i inp st =
     (if i < 14 then
        (case scan_rows i 0 inp st of
           (False, st') \<Rightarrow> (False, st')
         | (True, st') \<Rightarrow> scan_columns (Suc i) inp (delay_us 100 st'))
      else (True, st))"
  by pat_completeness auto
termination
  by (relation "measure (\<lambda>(i, inp, st). 14 - i)") auto

declare scan_rows.simps [simp del] scan_columns.simps [simp del]

text \<open>
  The history of one key: the visits of the scanner to its position, each with the
  configuration and the readings of that moment. Between two visits the cell is not
  touched (no other code writes it). The result lists, visit by visit, the call made
  and the cell's new value, and gives the cell's final value.
\<close>

record visit =
  v_rate :: uchar
  v_delay :: uchar
  v_P0 :: uchar
  v_tick :: uchar

fun run_key :: "nat \<Rightarrow> visit list \<Rightarrow> uchar \<Rightarrow> (call option \<times> uchar) list \<times> uchar" where
  "run_key j [] stamp = ([], stamp)"
| "run_key j (v # vs) stamp =
     (let r = scanCell (v_rate v) (v_delay v) (v_P0 v) j (v_tick v) stamp;
          (rs, final) = run_key j vs (snd r)
      in (r # rs, final))"

definition makes :: "(call option \<times> uchar) list \<Rightarrow> nat" where
  "makes rs = length (filter (\<lambda>r. fst r = Some Press \<or> fst r = Some Repeat) rs)"

definition first_makes :: "(call option \<times> uchar) list \<Rightarrow> nat" where
  "first_makes rs = length (filter (\<lambda>r. fst r = Some Press) rs)"

definition breaks :: "(call option \<times> uchar) list \<Rightarrow> nat" where
  "breaks rs = length (filter (\<lambda>r. fst r = Some Release) rs)"

section \<open>Notions of the specification\<close>

text \<open>
  Balanced make and break (section 8, property 1): as many make sequences as break
  sequences, plus one if the key's state is nonzero.
\<close>

definition balanced :: "(call option \<times> uchar) list \<Rightarrow> uchar \<Rightarrow> bool" where
  "balanced rs final \<longleftrightarrow> makes rs = breaks rs + (if final \<noteq> 0 then 1 else 0)"

text \<open>
  The frame of a byte as the specification describes it (section 6): start bit 0, the
  eight data bits from the least significant, the parity bit that makes the number of
  ones among data and parity odd, stop bit 1.
\<close>

definition ps2_frame :: "uchar \<Rightarrow> bool list" where
  "ps2_frame b =
     [False] @ map (bit b) [0..<8] @ [even (length (filter (bit b) [0..<8])), True]"

text \<open>A well-formed frame: eleven bits, start 0, stop 1, odd parity over data and parity bit.\<close>

definition frame_ok :: "bool list \<Rightarrow> bool" where
  "frame_ok bs \<longleftrightarrow>
     length bs = 11 \<and> \<not> bs ! 0 \<and> bs ! 10 \<and> odd (length (filter (\<lambda>b. b) (take 9 (drop 1 bs))))"

text \<open>What a call has added to the bus activity, and the frames among it.\<close>

definition emitted :: "kbd \<Rightarrow> kbd \<Rightarrow> event list" where
  "emitted st st' = drop (length (wire st)) (wire st')"

fun frames :: "event list \<Rightarrow> u16 list" where
  "frames [] = []"
| "frames (Frame k # es) = k # frames es"
| "frames (Delay us # es) = frames es"
| "frames (Receive # es) = frames es"

text \<open>
  Successive frames separated by at least \<open>BREAK\<close> microseconds: the first argument
  is the sum of the delays since the last frame (\<open>None\<close> before the first frame and
  after a byte from the host).
\<close>

fun gaps_ok :: "int option \<Rightarrow> event list \<Rightarrow> bool" where
  "gaps_ok idle [] = True"
| "gaps_ok idle (Frame k # es) =
     ((case idle of None \<Rightarrow> True | Some d \<Rightarrow> d \<ge> BREAK) \<and> gaps_ok (Some 0) es)"
| "gaps_ok idle (Delay us # es) = gaps_ok (map_option (\<lambda>d. d + us) idle) es"
| "gaps_ok idle (Receive # es) = gaps_ok None es"

definition separated :: "event list \<Rightarrow> bool" where
  "separated es = gaps_ok None es"

text \<open>The command bytes of the table of section 4.E; every other byte is unknown.\<close>

definition known_command :: "u16 \<Rightarrow> bool" where
  "known_command c \<longleftrightarrow>
     c \<in> set [0xed, 0xee, 0xf0, 0xf2, 0xf3, 0xf4, 0xf5, 0xf6, 0xf7, 0xf8, 0xf9, 0xfa,
                0xfb, 0xfc, 0xfd, 0xfe, 0xff]"

text \<open>The typematic tables of section 4.E, on the argument byte.\<close>

definition typematic_rate :: "u16 \<Rightarrow> uchar" where
  "typematic_rate arg =
     (let r = take_bit 5 arg in
      if 0x18 \<le> r \<and> r \<le> 0x1f then 50
      else if 0x10 \<le> r \<and> r \<le> 0x17 then 25
      else if 0x08 \<le> r \<and> r \<le> 0x0f then 12
      else if 0x04 \<le> r \<and> r \<le> 0x07 then 6
      else 3)"

definition typematic_delay :: "u16 \<Rightarrow> uchar" where
  "typematic_delay arg =
     (case (bit arg 6, bit arg 5) of
        (False, False) \<Rightarrow> 25
      | (False, True) \<Rightarrow> 50
      | (True, False) \<Rightarrow> 75
      | (True, True) \<Rightarrow> 100)"

section \<open>Frames on the wire\<close>

text \<open>The constants the firmware passes to \<open>transmit\<close> are the frames of their low bytes.\<close>

lemma frame_ACK: "line_bits ACK = ps2_frame 0xFA"
  by code_simp

lemma frame_RE: "line_bits RE = ps2_frame 0xFE"
  by code_simp

lemma frame_EXT: "line_bits EXT = ps2_frame 0xE0"
  by code_simp

lemma frame_REL: "line_bits REL = ps2_frame 0xF0"
  by code_simp

lemma frame_echo: "line_bits 0x03ee = ps2_frame 0xEE"
  by code_simp

lemma frame_id1: "line_bits 0x02ab = ps2_frame 0xAB"
  by code_simp

lemma frame_id2: "line_bits 0x0283 = ps2_frame 0x83"
  by code_simp

lemma frame_bat: "line_bits 0x03aa = ps2_frame 0xAA"
  by code_simp

lemma frame_set2: "line_bits 0x0341 = ps2_frame 0x41"
  by code_simp

lemma ps2_frame_ok: "frame_ok (ps2_frame b)"
proof -
  have "length (filter (\<lambda>x. x) (map (bit b) [0..<8])) = length (filter (bit b) [0..<8])"
    by (simp only: filter_map o_def length_map)
  then show ?thesis
    by (simp add: frame_ok_def ps2_frame_def nth_append del: upt_Suc)
qed

section \<open>Command replies\<close>

subsection \<open>The typematic argument\<close>

lemma take_bit_5: "take_bit 5 (arg :: u16) = arg AND 0x1f"
  by (simp add: take_bit_eq_mask mask_eq_exp_minus_1)

lemma bit_0x20: "bit (0x20 :: u16) n \<longleftrightarrow> n = 5"
proof -
  have "(0x20 :: u16) = 2 ^ 5" by simp
  then show ?thesis
    by (simp only: bit_exp_iff) (auto simp: possible_bit_word)
qed

lemma bit_0x40: "bit (0x40 :: u16) n \<longleftrightarrow> n = 6"
proof -
  have "(0x40 :: u16) = 2 ^ 6" by simp
  then show ?thesis
    by (simp only: bit_exp_iff) (auto simp: possible_bit_word)
qed

lemma bit_0x60: "bit (0x60 :: u16) n \<longleftrightarrow> n = 5 \<or> n = 6"
proof -
  have "(0x60 :: u16) = 0x20 OR 0x40" by simp
  then show ?thesis
    by (simp only: bit_or_iff bit_0x20 bit_0x40)
qed

lemma delay_field:
  fixes arg :: u16
  shows "arg AND 0x60 = 0x20 \<longleftrightarrow> bit arg 5 \<and> \<not> bit arg 6"
    and "arg AND 0x60 = 0x40 \<longleftrightarrow> \<not> bit arg 5 \<and> bit arg 6"
    and "arg AND 0x60 = 0x60 \<longleftrightarrow> bit arg 5 \<and> bit arg 6"
proof -
  have b: "bit (arg AND 0x60) n \<longleftrightarrow> bit arg n \<and> (n = 5 \<or> n = 6)" for n
    by (simp only: bit_and_iff bit_0x60)
  have e: "arg AND 0x60 = w \<longleftrightarrow> (bit arg 5 \<longleftrightarrow> bit w 5) \<and> (bit arg 6 \<longleftrightarrow> bit w 6)
             \<and> (\<forall>n. n \<noteq> 5 \<and> n \<noteq> 6 \<longrightarrow> \<not> bit w n)" for w :: u16
  proof
    assume "arg AND 0x60 = w"
    then have "bit w n \<longleftrightarrow> bit arg n \<and> (n = 5 \<or> n = 6)" for n
      using b by blast
    then show "(bit arg 5 \<longleftrightarrow> bit w 5) \<and> (bit arg 6 \<longleftrightarrow> bit w 6)
             \<and> (\<forall>n. n \<noteq> 5 \<and> n \<noteq> 6 \<longrightarrow> \<not> bit w n)"
      by blast
  next
    assume h: "(bit arg 5 \<longleftrightarrow> bit w 5) \<and> (bit arg 6 \<longleftrightarrow> bit w 6)
             \<and> (\<forall>n. n \<noteq> 5 \<and> n \<noteq> 6 \<longrightarrow> \<not> bit w n)"
    show "arg AND 0x60 = w"
    proof (rule bit_eqI)
      fix n
      show "bit (arg AND 0x60) n = bit w n"
        unfolding b using h by (cases "n = 5"; cases "n = 6") auto
    qed
  qed
  show "arg AND 0x60 = 0x20 \<longleftrightarrow> bit arg 5 \<and> \<not> bit arg 6"
    unfolding e bit_0x20 by auto
  show "arg AND 0x60 = 0x40 \<longleftrightarrow> \<not> bit arg 5 \<and> bit arg 6"
    unfolding e bit_0x40 by auto
  show "arg AND 0x60 = 0x60 \<longleftrightarrow> bit arg 5 \<and> bit arg 6"
    unfolding e bit_0x60 by auto
qed

lemma code_delay:
  fixes arg :: u16
  shows "(if arg AND 0x60 = 0x20 then 50
          else if arg AND 0x60 = 0x40 then 75
          else if arg AND 0x60 = 0x60 then 100 else 25) = typematic_delay arg"
  unfolding delay_field typematic_delay_def
  by (cases "bit arg 5"; cases "bit arg 6"; simp)

subsection \<open>The cases of the switch\<close>

lemma followCommand_ee:
  "c AND 0xff = 0xee \<Longrightarrow> followCommand c pins st = Returned (transmit 0x03ee st) pins"
  by (simp add: followCommand_def)

lemma followCommand_f2:
  "c AND 0xff = 0xf2 \<Longrightarrow>
   followCommand c pins st =
     Returned (st\<lparr>LAST_BYTE := 0x0283,
                   wire := wire st @ [Frame ACK, Frame 0x02ab, Delay BREAK, Frame 0x0283]\<rparr>) pins"
  by (simp add: followCommand_def transmit_def delay_us_def)

lemma followCommand_ff:
  "c AND 0xff = 0xff \<Longrightarrow>
   followCommand c pins st =
     Returned (st\<lparr>LAST_BYTE := 0x03aa,
                   wire := wire st @ [Frame ACK, Delay BREAK, Frame 0x03aa]\<rparr>) pins"
  by (simp add: followCommand_def transmit_def delay_us_def)

lemma followCommand_fe:
  "c AND 0xff = 0xfe \<Longrightarrow>
   followCommand c pins st =
     Returned (st\<lparr>LAST_BYTE := ACK, wire := wire st @ [Frame ACK, Frame ACK]\<rparr>) pins"
  by (simp add: followCommand_def transmit_def)


lemma followCommand_f3:
  assumes "c AND 0xff = 0xf3"
  shows "followCommand c pins st =
     read_arg pins (transmit ACK st)
       (\<lambda>arg st. (transmit ACK st)\<lparr>REPEAT_RATE := typematic_rate arg,
                                       REPEAT_DELAY := typematic_delay arg\<rparr>)"
proof -
  have "followCommand c pins st =
     read_arg pins (transmit ACK st)
          (\<lambda>arg st.
             let st = transmit ACK st;
                 st = (if arg AND 0x1f \<ge> 0x18 \<and> arg AND 0x1f \<le> 0x1f then st\<lparr>REPEAT_RATE := 50\<rparr>
                       else if arg AND 0x1f \<ge> 0x10 \<and> arg AND 0x1f \<le> 0x17 then st\<lparr>REPEAT_RATE := 25\<rparr>
                       else if arg AND 0x1f \<ge> 0x08 \<and> arg AND 0x1f \<le> 0x0f then st\<lparr>REPEAT_RATE := 12\<rparr>
                       else if arg AND 0x1f \<ge> 0x04 \<and> arg AND 0x1f \<le> 0x07 then st\<lparr>REPEAT_RATE := 6\<rparr>
                       else st\<lparr>REPEAT_RATE := 3\<rparr>)
             in if arg AND 0x60 = 0x20 then st\<lparr>REPEAT_DELAY := 50\<rparr>
                else if arg AND 0x60 = 0x40 then st\<lparr>REPEAT_DELAY := 75\<rparr>
                else if arg AND 0x60 = 0x60 then st\<lparr>REPEAT_DELAY := 100\<rparr>
                else st\<lparr>REPEAT_DELAY := 25\<rparr>)"
    unfolding followCommand_def Let_def [of "c AND 0xff"] assms by simp
  also have "(\<lambda>arg st.
             let st = transmit ACK st;
                 st = (if arg AND 0x1f \<ge> 0x18 \<and> arg AND 0x1f \<le> 0x1f then st\<lparr>REPEAT_RATE := 50\<rparr>
                       else if arg AND 0x1f \<ge> 0x10 \<and> arg AND 0x1f \<le> 0x17 then st\<lparr>REPEAT_RATE := 25\<rparr>
                       else if arg AND 0x1f \<ge> 0x08 \<and> arg AND 0x1f \<le> 0x0f then st\<lparr>REPEAT_RATE := 12\<rparr>
                       else if arg AND 0x1f \<ge> 0x04 \<and> arg AND 0x1f \<le> 0x07 then st\<lparr>REPEAT_RATE := 6\<rparr>
                       else st\<lparr>REPEAT_RATE := 3\<rparr>)
             in if arg AND 0x60 = 0x20 then st\<lparr>REPEAT_DELAY := 50\<rparr>
                else if arg AND 0x60 = 0x40 then st\<lparr>REPEAT_DELAY := 75\<rparr>
                else if arg AND 0x60 = 0x60 then st\<lparr>REPEAT_DELAY := 100\<rparr>
                else st\<lparr>REPEAT_DELAY := 25\<rparr>)
      = (\<lambda>arg st. (transmit ACK st)\<lparr>REPEAT_RATE := typematic_rate arg,
                                       REPEAT_DELAY := typematic_delay arg\<rparr>)"
    unfolding code_delay [symmetric] typematic_rate_def take_bit_5 Let_def
    by (intro ext) simp
  finally show ?thesis .
qed

lemma followCommand_replies:
  "emitted st (state_of (followCommand c pins st)) \<in>
     {[Frame 0x03ee], [Frame RE], [Frame ACK], [Frame ACK, Receive, Frame ACK],
      [Frame ACK, Receive, Frame ACK, Frame 0x0341],
      [Frame ACK, Frame 0x02ab, Delay BREAK, Frame 0x0283],
      [Frame ACK, Frame ACK], [Frame ACK, Delay BREAK, Frame 0x03aa]}"
proof (cases "c AND 0xff = 0xf3")
  case True
  then show ?thesis
    by (simp add: followCommand_f3 read_arg_def emitted_def transmit_def split: option.splits)
next
  case False
  show ?thesis
  proof (cases "known_command (c AND 0xff)")
    case True
    with False show ?thesis
      unfolding known_command_def set_simps insert_iff empty_iff
      by (elim disjE)
         (simp_all add: followCommand_def Let_def read_arg_def emitted_def transmit_def
            delay_us_def split: option.splits)
  next
    case False
    then show ?thesis
      by (simp add: followCommand_def Let_def read_arg_def emitted_def transmit_def delay_us_def
            known_command_def)
  qed
qed

text \<open>The repeat rate is never set to 0, the divisor of line 341.\<close>

lemma typematic_rate_values: "typematic_rate arg \<in> {50, 25, 12, 6, 3}"
  by (simp add: typematic_rate_def Let_def)

lemma REPEAT_RATE_followCommand:
  "REPEAT_RATE (state_of (followCommand c pins st)) \<in> {REPEAT_RATE st, 50, 25, 12, 6, 3}"
proof (cases "c AND 0xff = 0xf3")
  case True
  then show ?thesis
    using typematic_rate_values
    by (auto simp: followCommand_f3 read_arg_def transmit_def split: option.splits)
next
  case False
  show ?thesis
  proof (cases "known_command (c AND 0xff)")
    case True
    with False show ?thesis
      unfolding known_command_def set_simps insert_iff empty_iff
      by (elim disjE)
         (simp_all add: followCommand_def Let_def read_arg_def transmit_def delay_us_def
            split: option.splits)
  next
    case False
    then show ?thesis
      by (simp add: followCommand_def Let_def transmit_def known_command_def)
  qed
qed

subsection \<open>Resend (command 0xFE)\<close>

text \<open>
  C1. The claim: command \<open>0xFE\<close> transmits ACK and then the frame that was
  transmitted last before the command arrived. In the code the ACK is itself sent with
  \<open>transmit\<close>, which overwrites \<open>LAST_BYTE\<close>, so the second frame is the ACK
  again. With the make code of key A (\<open>0x021c\<close>) as the last frame sent, the two
  frames of the reply are \<open>0x03FA\<close> and \<open>0x03FA\<close>, not \<open>0x03FA\<close> and
  \<open>0x021c\<close>.
\<close>

theorem resend_repeats_ack:
  "followCommand 0xfe [] ((boot released)\<lparr>LAST_BYTE := 0x021c\<rparr>)
     = Returned ((boot released)\<lparr>LAST_BYTE := 0x03FA, wire := [Frame 0x03FA, Frame 0x03FA]\<rparr>) []"
  by (simp add: followCommand_def transmit_def boot_def ACK_def)

subsection \<open>Reset (command 0xFF)\<close>

text \<open>
  C6, as the claim states it, fails: after \<open>0xF5\<close> (disable) and \<open>0xF3 0x30\<close>
  the configuration is \<open>ENABLE = 0\<close>, \<open>REPEAT_RATE = 25\<close>,
  \<open>REPEAT_DELAY = 50\<close>, and command \<open>0xFF\<close> leaves it so; the values at boot
  are 1, 50 and 100.
\<close>

theorem reset_keeps_configuration:
  "ENABLE (state_of (followCommand 0xff []
      ((boot released)\<lparr>ENABLE := 0, REPEAT_RATE := 25, REPEAT_DELAY := 50\<rparr>))) = 0
   \<and> REPEAT_RATE (state_of (followCommand 0xff []
      ((boot released)\<lparr>ENABLE := 0, REPEAT_RATE := 25, REPEAT_DELAY := 50\<rparr>))) = 25
   \<and> REPEAT_DELAY (state_of (followCommand 0xff []
      ((boot released)\<lparr>ENABLE := 0, REPEAT_RATE := 25, REPEAT_DELAY := 50\<rparr>))) = 50
   \<and> ENABLE (boot released) = 1 \<and> REPEAT_RATE (boot released) = 50
   \<and> REPEAT_DELAY (boot released) = 100"
  by (simp add: followCommand_ff boot_def)

text \<open>
  C6, amended: command \<open>0xFF\<close> transmits the frame of \<open>0xFA\<close> (ACK), waits
  \<open>BREAK\<close> microseconds, transmits the frame of \<open>0xAA\<close> and returns; the two
  frames are separated by at least \<open>BREAK\<close>; \<open>ENABLE\<close>, \<open>REPEAT_RATE\<close> and
  \<open>REPEAT_DELAY\<close> keep the values they had (and so does every other variable but
  \<open>LAST_BYTE\<close>).
\<close>

theorem reset_reply:
  assumes "c AND 0xff = 0xff"
  shows "followCommand c pins st =
           Returned (st\<lparr>LAST_BYTE := 0x03aa,
                          wire := wire st @ [Frame ACK, Delay BREAK, Frame 0x03aa]\<rparr>) pins
         \<and> line_bits ACK = ps2_frame 0xFA \<and> line_bits 0x03aa = ps2_frame 0xAA
         \<and> separated (emitted st (state_of (followCommand c pins st)))
         \<and> ENABLE (state_of (followCommand c pins st)) = ENABLE st
         \<and> REPEAT_RATE (state_of (followCommand c pins st)) = REPEAT_RATE st
         \<and> REPEAT_DELAY (state_of (followCommand c pins st)) = REPEAT_DELAY st"
  using assms
  by (simp add: followCommand_ff frame_ACK frame_bat separated_def emitted_def)

theorem reset_reply_witness:
  "(0xff :: u16) AND 0xff = 0xff
   \<and> emitted (boot released) (state_of (followCommand 0xff [] (boot released)))
       = [Frame 0x03FA, Delay 336, Frame 0x03aa]
   \<and> REPEAT_DELAY (state_of (followCommand 0xff [] (boot released))) = 100"
  using reset_reply [of "0xff" "[]" "boot released"]
  by (simp add: emitted_def boot_def ACK_def BREAK_def)

subsection \<open>Read ID (command 0xF2)\<close>

text \<open>
  C9, as the claim states it, fails: the reply is ACK, \<open>0xAB\<close>, \<open>0x83\<close>, but
  the frame of \<open>0xAB\<close> follows the ACK with no call of \<open>delay_us\<close> in between.
\<close>

theorem read_id_ack_not_separated:
  "emitted (boot released) (state_of (followCommand 0xf2 [] (boot released)))
     = [Frame 0x03FA, Frame 0x02ab, Delay 336, Frame 0x0283]
   \<and> \<not> separated (emitted (boot released) (state_of (followCommand 0xf2 [] (boot released))))"
  by (simp add: followCommand_f2 emitted_def boot_def separated_def ACK_def BREAK_def)

text \<open>
  C9, amended: command \<open>0xF2\<close> transmits exactly the frames of \<open>0xFA\<close>,
  \<open>0xAB\<close> and \<open>0x83\<close>, in this order; the two identity bytes \<open>0xAB\<close> and
  \<open>0x83\<close> are separated by a delay of \<open>BREAK\<close> microseconds; no delay is
  requested between the ACK and \<open>0xAB\<close>.
\<close>

theorem read_id_reply:
  assumes "c AND 0xff = 0xf2"
  shows "emitted st (state_of (followCommand c pins st))
           = [Frame ACK, Frame 0x02ab, Delay BREAK, Frame 0x0283]
         \<and> map line_bits [ACK, 0x02ab, 0x0283] = map ps2_frame [0xFA, 0xAB, 0x83]
         \<and> separated (tl (emitted st (state_of (followCommand c pins st))))"
  using assms
  by (simp add: followCommand_f2 frame_ACK frame_id1 frame_id2 separated_def emitted_def)

theorem read_id_reply_witness:
  "(0x02f2 :: u16) AND 0xff = 0xf2
   \<and> frames (emitted (boot released) (state_of (followCommand 0x02f2 [] (boot released))))
       = [0x03FA, 0x02ab, 0x0283]
   \<and> tl (emitted (boot released) (state_of (followCommand 0x02f2 [] (boot released))))
       = [Frame 0x02ab, Delay 336, Frame 0x0283]"
  using read_id_reply [of "0x02f2" "boot released" "[]"]
  by (simp add: ACK_def BREAK_def)

subsection \<open>Shape of the replies\<close>

text \<open>
  C7. For every command byte the reply of \<open>followCommand\<close> is: the single frame of
  \<open>0xEE\<close> for command \<open>0xEE\<close>; the single frame of \<open>0xFE\<close> (resend) for a
  byte that is not a command of the table; for every other command a sequence that
  begins with the frame of \<open>0xFA\<close> (ACK). This holds whether or not an argument
  byte arrives.
\<close>

theorem reply_shape:
  "(c AND 0xff = 0xee \<longrightarrow>
      emitted st (state_of (followCommand c pins st)) = [Frame 0x03ee])
   \<and> (known_command (c AND 0xff) \<and> c AND 0xff \<noteq> 0xee \<longrightarrow>
      (\<exists>rest. emitted st (state_of (followCommand c pins st)) = Frame ACK # rest))
   \<and> (\<not> known_command (c AND 0xff) \<longrightarrow>
      emitted st (state_of (followCommand c pins st)) = [Frame RE])
   \<and> line_bits 0x03ee = ps2_frame 0xEE \<and> line_bits ACK = ps2_frame 0xFA
   \<and> line_bits RE = ps2_frame 0xFE"
proof (cases "c AND 0xff = 0xf3")
  case True
  then show ?thesis
    by (simp add: followCommand_f3 read_arg_def emitted_def transmit_def known_command_def
          frame_ACK frame_RE frame_echo split: option.splits)
next
  case False
  show ?thesis
  proof (cases "known_command (c AND 0xff)")
    case True
    with False show ?thesis
      unfolding known_command_def set_simps insert_iff empty_iff
      by (elim disjE)
         (simp_all add: followCommand_def Let_def read_arg_def emitted_def transmit_def
            delay_us_def known_command_def frame_ACK frame_RE frame_echo split: option.splits)
  next
    case False
    then show ?thesis
      by (simp add: followCommand_def Let_def read_arg_def emitted_def transmit_def delay_us_def
            known_command_def frame_ACK frame_RE frame_echo)
  qed
qed

theorem reply_shape_witness:
  "(0xee :: u16) AND 0xff = 0xee
   \<and> emitted (boot released) (state_of (followCommand 0xee [] (boot released))) = [Frame 0x03ee]
   \<and> known_command (0xf4 AND 0xff) \<and> (0xf4 :: u16) AND 0xff \<noteq> 0xee
   \<and> (\<exists>rest. emitted (boot released) (state_of (followCommand 0xf4 [] (boot released)))
         = Frame ACK # rest)
   \<and> \<not> known_command (0x1c AND 0xff)
   \<and> emitted (boot released) (state_of (followCommand 0x1c [] (boot released))) = [Frame RE]"
  using reply_shape [of "0xee" "boot released" "[]"] reply_shape [of "0xf4" "boot released" "[]"]
    reply_shape [of "0x1c" "boot released" "[]"]
  by (simp add: known_command_def)

subsection \<open>Set typematic (command 0xF3)\<close>

text \<open>
  C8. When an argument byte arrives after command \<open>0xF3\<close>, the interpreter
  transmits ACK, receives the argument, transmits ACK again and returns with
  \<open>REPEAT_RATE\<close> set from bits 0-4 and \<open>REPEAT_DELAY\<close> set from bits 5-6 of the
  argument by the tables of the specification; nothing else of the configuration
  changes. The witness is scenario S5: the argument \<open>0x30\<close>, received with its
  parity and stop bits as \<open>0x330\<close>, gives delay 50 and rate 25.
\<close>

theorem set_typematic:
  assumes "c AND 0xff = 0xf3" and "receive pins = Some (arg, pins')"
  shows "followCommand c pins st =
           Returned (st\<lparr>LAST_BYTE := ACK, REPEAT_RATE := typematic_rate arg,
                          REPEAT_DELAY := typematic_delay arg,
                          wire := wire st @ [Frame ACK, Receive, Frame ACK]\<rparr>) pins'"
  using assms by (simp add: followCommand_f3 read_arg_def transmit_def)

theorem set_typematic_witness:
  "(0xf3 :: u16) AND 0xff = 0xf3
   \<and> receive [2, 2, 2, 2, 2, 3, 3, 2, 2, 3, 3] = Some (0x330, [])
   \<and> REPEAT_DELAY (state_of (followCommand 0xf3 [2, 2, 2, 2, 2, 3, 3, 2, 2, 3, 3] (boot released))) = 50
   \<and> REPEAT_RATE (state_of (followCommand 0xf3 [2, 2, 2, 2, 2, 3, 3, 2, 2, 3, 3] (boot released))) = 25
   \<and> emitted (boot released)
        (state_of (followCommand 0xf3 [2, 2, 2, 2, 2, 3, 3, 2, 2, 3, 3] (boot released)))
       = [Frame ACK, Receive, Frame ACK]"
proof -
  have c: "(0xf3 :: u16) AND 0xff = 0xf3"
    by simp
  have r: "receive [2, 2, 2, 2, 2, 3, 3, 2, 2, 3, 3] = Some (0x330, [])"
    by code_simp
  have d: "typematic_delay 0x330 = 50"
    by code_simp
  have t: "typematic_rate 0x330 = 25"
    by code_simp
  show ?thesis
    using set_typematic [OF c r, of "boot released"] c r
    by (simp add: d t emitted_def)
qed

subsection \<open>Only the low byte counts\<close>

text \<open>
  C10. \<open>followCommand\<close> does the same for two command values that agree in bits
  0-7, and for two received argument values that agree in bits 0-7 (such as a byte
  received with and without the parity and stop bits that \<open>receive\<close> leaves at bits 8
  and 9): the same frames, the same configuration, the same state in every component.
\<close>

theorem low_byte_only:
  assumes "c1 AND 0xff = c2 AND 0xff"
    and "map_option (\<lambda>(a, r). (a AND 0xff, r)) (receive pins1)
         = map_option (\<lambda>(a, r). (a AND 0xff, r)) (receive pins2)"
  shows "state_of (followCommand c1 pins1 st) = state_of (followCommand c2 pins2 st)"
proof (cases "receive pins1")
  case None
  with assms(2) have "receive pins2 = None"
    by simp
  with None assms(1) show ?thesis
    by (simp add: followCommand_def read_arg_def Let_def if_distrib [of state_of]
          split del: if_split cong: if_cong)
next
  case (Some x)
  obtain a1 r1 where x: "x = (a1, r1)"
    by (cases x)
  from Some x assms(2) obtain a2 where r2: "receive pins2 = Some (a2, r1)"
    and a: "a1 AND 0xff = a2 AND 0xff"
    by (cases "receive pins2") auto
  have low: "a1 AND m = a2 AND m" if "0xff AND m = m" for m
  proof -
    have "(a1 AND 0xff) AND m = (a2 AND 0xff) AND m"
      using a by simp
    then show ?thesis
      by (simp only: and.assoc that)
  qed
  have "a1 AND 0x04 = a2 AND 0x04" "a1 AND 0x1f = a2 AND 0x1f" "a1 AND 0x60 = a2 AND 0x60"
    by (rule low, simp)+
  with Some x r2 a assms(1) show ?thesis
    by (simp add: followCommand_def read_arg_def Let_def if_distrib [of state_of]
          split del: if_split cong: if_cong)
qed

theorem low_byte_only_witness:
  "(0x03f3 :: u16) AND 0xff = 0x00f3 AND 0xff
   \<and> receive [2, 2, 2, 2, 2, 3, 3, 2, 2, 3, 3] = Some (0x330, [])
   \<and> receive [2, 2, 2, 2, 2, 3, 3, 2, 2, 2, 2] = Some (0x030, [])
   \<and> state_of (followCommand 0x03f3 [2, 2, 2, 2, 2, 3, 3, 2, 2, 3, 3] (boot released))
       = state_of (followCommand 0x00f3 [2, 2, 2, 2, 2, 3, 3, 2, 2, 2, 2] (boot released))"
proof -
  have c: "(0x03f3 :: u16) AND 0xff = 0x00f3 AND 0xff"
    by simp
  have r1: "receive [2, 2, 2, 2, 2, 3, 3, 2, 2, 3, 3] = Some (0x330, [])"
    by code_simp
  have r2: "receive [2, 2, 2, 2, 2, 3, 3, 2, 2, 2, 2] = Some (0x030, [])"
    by code_simp
  have r: "map_option (\<lambda>(a, r). (a AND 0xff, r)) (receive [2, 2, 2, 2, 2, 3, 3, 2, 2, 3, 3])
         = map_option (\<lambda>(a, r). (a AND 0xff, r)) (receive [2, 2, 2, 2, 2, 3, 3, 2, 2, 2, 2])"
    by (simp add: r1 r2)
  show ?thesis
    using low_byte_only [OF c r, of "boot released"] c r1 r2
    by simp
qed

section \<open>Scanner\<close>

subsection \<open>One visit of a matrix position\<close>

lemma or_0x80_nonzero: "(s :: uchar) OR 0x80 \<noteq> 0" "0x80 OR (s :: uchar) \<noteq> 0"
  by (simp_all add: or_eq_0_iff)

lemma scanCell_balance:
  assumes "scanCell R D P0 j t s = (c, s')" and "c = Some Press \<longrightarrow> s' \<noteq> 0"
  shows "(if c = Some Press then 1 else 0) + (if s \<noteq> 0 then 1 else 0)
         = (if c = Some Release then 1 else 0) + (if s' \<noteq> 0 then 1 else (0::nat))"
  using assms
  by (auto simp: scanCell_def Let_def or_0x80_nonzero split: if_splits)

lemma scanCell_repeat:
  assumes "scanCell R D P0 j t s = (Some Repeat, s')"
  shows "s \<noteq> 0 \<and> s' \<ge> 128"
  using assms
  by (auto simp: scanCell_def Let_def le_word_or2 split: if_splits)

lemma scanCell_to_zero:
  assumes "s \<noteq> 0" and "snd (scanCell R D P0 j t s) = 0"
  shows "fst (scanCell R D P0 j t s) = Some Release"
  using assms
  by (auto simp: scanCell_def Let_def or_0x80_nonzero split: if_splits)

lemma scanCell_idle:
  assumes "P0 AND push_bit j 0x01 = 0"
  shows "scanCell R D P0 j t 0 = (None, 0)"
  using assms by (simp add: scanCell_def)

text \<open>\<open>sendCode\<close> passes to \<open>transmit\<close> the two prefixes and the low 16 bits of its argument.\<close>

lemma emitted_sendCode:
  "emitted st (sendCode keycode keyState st) \<in>
     {[Frame (ucast keycode), Delay BREAK],
      [Frame EXT, Delay BREAK, Frame (ucast keycode), Delay BREAK],
      [Frame REL, Delay BREAK, Frame (ucast keycode), Delay BREAK],
      [Frame EXT, Delay BREAK, Frame REL, Delay BREAK, Frame (ucast keycode), Delay BREAK]}"
  by (simp add: sendCode_def emitted_def transmit_def delay_us_def)

lemma wire_sendCode:
  "wire (sendCode keycode keyState st) = wire st @ emitted st (sendCode keycode keyState st)"
  by (simp add: sendCode_def emitted_def transmit_def delay_us_def)

lemma emitted_stamps:
  "emitted st (sendCode keycode keyState (st\<lparr>keyStamps := ks\<rparr>))
     = emitted st (sendCode keycode keyState st)"
  by (simp add: sendCode_def emitted_def transmit_def delay_us_def)

lemma emitted_visit_key:
  "emitted st (visit_key i j P0 t st) =
     (case fst (scanCell (REPEAT_RATE st) (REPEAT_DELAY st) P0 j t (keyStamps st (i, j))) of
        None \<Rightarrow> []
      | Some k \<Rightarrow> emitted st (sendCode (KEY_SCAN_CODES ! i ! j) (keyState_of k) st))"
  by (simp add: visit_key_def emitted_stamps split: prod.splits option.splits)
     (simp add: emitted_def)

lemma keyStamps_sendCode:
  "keyStamps (sendCode keycode keyState st) = keyStamps st"
  by (simp add: sendCode_def transmit_def delay_us_def)

lemma keyStamps_visit_key:
  "keyStamps (visit_key i j P0 t st) =
     (keyStamps st)((i, j) :=
        snd (scanCell (REPEAT_RATE st) (REPEAT_DELAY st) P0 j t (keyStamps st (i, j))))"
  by (simp add: visit_key_def Let_def keyStamps_sendCode split: prod.splits option.splits)

subsection \<open>One pass over the matrix\<close>

text \<open>
  A pass of the scanner leaves the configuration alone and touches the cell of a
  position at most once, through \<open>scanCell\<close> with the configuration of the pass and
  the readings taken at that position; a pass left by \<open>goto start\<close> has not touched
  the positions it did not reach. The command interpreter never writes a cell. So the
  history of a cell is a sequence of \<open>scanCell\<close> steps, as \<open>run_key\<close> has it.
\<close>

lemma config_sendCode:
  "REPEAT_RATE (sendCode keycode keyState st) = REPEAT_RATE st"
  "REPEAT_DELAY (sendCode keycode keyState st) = REPEAT_DELAY st"
  by (simp_all add: sendCode_def transmit_def delay_us_def)

lemma config_visit_key:
  "REPEAT_RATE (visit_key i j P0 t st) = REPEAT_RATE st"
  "REPEAT_DELAY (visit_key i j P0 t st) = REPEAT_DELAY st"
  by (simp_all add: visit_key_def Let_def config_sendCode split: prod.splits option.splits)

lemma scan_rows_cells:
  "REPEAT_RATE (snd (scan_rows i j inp st)) = REPEAT_RATE st
   \<and> REPEAT_DELAY (snd (scan_rows i j inp st)) = REPEAT_DELAY st
   \<and> (\<forall>a b. a \<noteq> i \<or> b < j \<or> 6 \<le> b \<longrightarrow>
         keyStamps (snd (scan_rows i j inp st)) (a, b) = keyStamps st (a, b))
   \<and> (\<forall>b. j \<le> b \<and> b < 6 \<longrightarrow>
         keyStamps (snd (scan_rows i j inp st)) (i, b) \<in>
           {keyStamps st (i, b),
            snd (scanCell (REPEAT_RATE st) (REPEAT_DELAY st) (P0_in (inp (i, b))) b
                   (tick_in (inp (i, b))) (keyStamps st (i, b)))})"
proof (induction i j inp st rule: scan_rows.induct)
  case (1 i j inp st)
  show ?case
  proof (cases "j < 6 \<and> P2_in (inp (i, j)) AND 0x02 \<noteq> 0")
    case False
    then have "snd (scan_rows i j inp st) = st"
      by (subst scan_rows.simps) auto
    then show ?thesis
      by simp
  next
    case True
    define st1 where "st1 = visit_key i j (P0_in (inp (i, j))) (tick_in (inp (i, j))) st"
    have unfold: "scan_rows i j inp st = scan_rows i (Suc j) inp st1"
      using True by (subst scan_rows.simps) (simp add: st1_def)
    have ih: "REPEAT_RATE (snd (scan_rows i (Suc j) inp st1)) = REPEAT_RATE st1
   \<and> REPEAT_DELAY (snd (scan_rows i (Suc j) inp st1)) = REPEAT_DELAY st1
   \<and> (\<forall>a b. a \<noteq> i \<or> b < Suc j \<or> 6 \<le> b \<longrightarrow>
         keyStamps (snd (scan_rows i (Suc j) inp st1)) (a, b) = keyStamps st1 (a, b))
   \<and> (\<forall>b. Suc j \<le> b \<and> b < 6 \<longrightarrow>
         keyStamps (snd (scan_rows i (Suc j) inp st1)) (i, b) \<in>
           {keyStamps st1 (i, b),
            snd (scanCell (REPEAT_RATE st1) (REPEAT_DELAY st1) (P0_in (inp (i, b))) b
                   (tick_in (inp (i, b))) (keyStamps st1 (i, b)))})"
      using "1.IH" True unfolding st1_def by simp
    have cfg: "REPEAT_RATE st1 = REPEAT_RATE st" "REPEAT_DELAY st1 = REPEAT_DELAY st"
      by (simp_all add: st1_def config_visit_key)
    have ks: "keyStamps st1 = (keyStamps st)((i, j) :=
        snd (scanCell (REPEAT_RATE st) (REPEAT_DELAY st) (P0_in (inp (i, j))) j
               (tick_in (inp (i, j))) (keyStamps st (i, j))))"
      by (simp add: st1_def keyStamps_visit_key)
    have other: "keyStamps (snd (scan_rows i (Suc j) inp st1)) (a, b) = keyStamps st (a, b)"
      if "a \<noteq> i \<or> b < j \<or> 6 \<le> b" for a b
    proof -
      have "keyStamps (snd (scan_rows i (Suc j) inp st1)) (a, b) = keyStamps st1 (a, b)"
        using ih that by auto
      also have "\<dots> = keyStamps st (a, b)"
        using that True by (auto simp: ks)
      finally show ?thesis .
    qed
    have here: "keyStamps (snd (scan_rows i (Suc j) inp st1)) (i, b) \<in>
           {keyStamps st (i, b),
            snd (scanCell (REPEAT_RATE st) (REPEAT_DELAY st) (P0_in (inp (i, b))) b
                   (tick_in (inp (i, b))) (keyStamps st (i, b)))}"
      if "j \<le> b" "b < 6" for b
    proof (cases "b = j")
      case True
      then have "keyStamps (snd (scan_rows i (Suc j) inp st1)) (i, b) = keyStamps st1 (i, b)"
        using ih by auto
      then show ?thesis
        using True by (simp add: ks)
    next
      case False
      then have "Suc j \<le> b \<and> b < 6"
        using that by simp
      then have "keyStamps (snd (scan_rows i (Suc j) inp st1)) (i, b) \<in>
           {keyStamps st1 (i, b),
            snd (scanCell (REPEAT_RATE st1) (REPEAT_DELAY st1) (P0_in (inp (i, b))) b
                   (tick_in (inp (i, b))) (keyStamps st1 (i, b)))}"
        using ih by blast
      then show ?thesis
        using False by (simp add: ks cfg)
    qed
    show ?thesis
      unfolding unfold using ih other here by (simp add: cfg)
  qed
qed


lemma scan_columns_cells:
  "REPEAT_RATE (snd (scan_columns i inp st)) = REPEAT_RATE st
   \<and> REPEAT_DELAY (snd (scan_columns i inp st)) = REPEAT_DELAY st
   \<and> (\<forall>a b. a < i \<or> 14 \<le> a \<or> 6 \<le> b \<longrightarrow>
         keyStamps (snd (scan_columns i inp st)) (a, b) = keyStamps st (a, b))
   \<and> (\<forall>a b. keyStamps (snd (scan_columns i inp st)) (a, b) \<in>
           {keyStamps st (a, b),
            snd (scanCell (REPEAT_RATE st) (REPEAT_DELAY st) (P0_in (inp (a, b))) b
                   (tick_in (inp (a, b))) (keyStamps st (a, b)))})"
proof (induction i inp st rule: scan_columns.induct)
  case (1 i inp st)
  obtain ok st1 where rows: "scan_rows i 0 inp st = (ok, st1)"
    by (cases "scan_rows i 0 inp st")
  have r: "REPEAT_RATE st1 = REPEAT_RATE st \<and> REPEAT_DELAY st1 = REPEAT_DELAY st
      \<and> (\<forall>a b. a \<noteq> i \<or> 6 \<le> b \<longrightarrow> keyStamps st1 (a, b) = keyStamps st (a, b))
      \<and> (\<forall>b. b < 6 \<longrightarrow> keyStamps st1 (i, b) \<in>
           {keyStamps st (i, b),
            snd (scanCell (REPEAT_RATE st) (REPEAT_DELAY st) (P0_in (inp (i, b))) b
                   (tick_in (inp (i, b))) (keyStamps st (i, b)))})"
    using scan_rows_cells [of i 0 inp st] by (simp add: rows)
  have all1: "keyStamps st1 (a, b) \<in>
           {keyStamps st (a, b),
            snd (scanCell (REPEAT_RATE st) (REPEAT_DELAY st) (P0_in (inp (a, b))) b
                   (tick_in (inp (a, b))) (keyStamps st (a, b)))}" for a b
    using r by (cases "a = i \<and> b < 6") auto
  show ?case
  proof (cases "i < 14 \<and> ok")
    case False
    then have "snd (scan_columns i inp st) = st \<or> snd (scan_columns i inp st) = st1 \<and> i < 14"
      by (subst (1 2) scan_columns.simps) (auto simp: rows)
    then show ?thesis
      using r all1 by auto
  next
    case True
    define st2 where "st2 = delay_us 100 st1"
    have unfold: "scan_columns i inp st = scan_columns (Suc i) inp st2"
      using True by (subst scan_columns.simps) (simp add: rows st2_def)
    have st2: "REPEAT_RATE st2 = REPEAT_RATE st" "REPEAT_DELAY st2 = REPEAT_DELAY st"
      "keyStamps st2 = keyStamps st1"
      using r by (simp_all add: st2_def delay_us_def)
    have ih: "REPEAT_RATE (snd (scan_columns (Suc i) inp st2)) = REPEAT_RATE st2
   \<and> REPEAT_DELAY (snd (scan_columns (Suc i) inp st2)) = REPEAT_DELAY st2
   \<and> (\<forall>a b. a < Suc i \<or> 14 \<le> a \<or> 6 \<le> b \<longrightarrow>
         keyStamps (snd (scan_columns (Suc i) inp st2)) (a, b) = keyStamps st2 (a, b))
   \<and> (\<forall>a b. keyStamps (snd (scan_columns (Suc i) inp st2)) (a, b) \<in>
           {keyStamps st2 (a, b),
            snd (scanCell (REPEAT_RATE st2) (REPEAT_DELAY st2) (P0_in (inp (a, b))) b
                   (tick_in (inp (a, b))) (keyStamps st2 (a, b)))})"
      using "1.IH" [OF _ rows [symmetric]] True unfolding st2_def by simp
    have before: "keyStamps (snd (scan_columns (Suc i) inp st2)) (a, b) = keyStamps st (a, b)"
      if "a < i \<or> 14 \<le> a \<or> 6 \<le> b" for a b
    proof -
      have "keyStamps (snd (scan_columns (Suc i) inp st2)) (a, b) = keyStamps st2 (a, b)"
        using ih that by auto
      also have "\<dots> = keyStamps st (a, b)"
        using r that True by (auto simp: st2)
      finally show ?thesis .
    qed
    have any: "keyStamps (snd (scan_columns (Suc i) inp st2)) (a, b) \<in>
           {keyStamps st (a, b),
            snd (scanCell (REPEAT_RATE st) (REPEAT_DELAY st) (P0_in (inp (a, b))) b
                   (tick_in (inp (a, b))) (keyStamps st (a, b)))}" for a b
    proof (cases "a = i")
      case True
      then have "keyStamps (snd (scan_columns (Suc i) inp st2)) (a, b) = keyStamps st1 (a, b)"
        using ih by (auto simp: st2)
      then show ?thesis
        using all1 [of a b] by simp
    next
      case False
      then have same: "keyStamps st1 (a, b) = keyStamps st (a, b)"
        using r by auto
      have "keyStamps (snd (scan_columns (Suc i) inp st2)) (a, b) \<in>
           {keyStamps st2 (a, b),
            snd (scanCell (REPEAT_RATE st2) (REPEAT_DELAY st2) (P0_in (inp (a, b))) b
                   (tick_in (inp (a, b))) (keyStamps st2 (a, b)))}"
        using ih by blast
      then show ?thesis
        by (simp only: st2 same)
    qed
    show ?thesis
      unfolding unfold using ih before any by (simp add: st2)
  qed
qed

lemma keyStamps_followCommand:
  "keyStamps (state_of (followCommand c pins st)) = keyStamps st"
proof (cases "c AND 0xff = 0xf3")
  case True
  then show ?thesis
    by (simp add: followCommand_f3 read_arg_def transmit_def split: option.splits)
next
  case False
  show ?thesis
  proof (cases "known_command (c AND 0xff)")
    case True
    with False show ?thesis
      unfolding known_command_def set_simps insert_iff empty_iff
      by (elim disjE)
         (simp_all add: followCommand_def Let_def read_arg_def transmit_def delay_us_def
            split: option.splits)
  next
    case False
    then show ?thesis
      by (simp add: followCommand_def Let_def transmit_def known_command_def)
  qed
qed

subsection \<open>The scan-code table\<close>

lemma table_shape:
  "length KEY_SCAN_CODES = 14
   \<and> list_all (\<lambda>row. length row = 6
        \<and> list_all (\<lambda>c. c = 0 \<or> frame_ok (line_bits (ucast c))) row) KEY_SCAN_CODES"
  by code_simp

lemma table_entry_ok:
  assumes "i < 14" and "j < 6" and "KEY_SCAN_CODES ! i ! j \<noteq> 0"
  shows "frame_ok (line_bits (ucast (KEY_SCAN_CODES ! i ! j)))"
proof -
  have row: "length (KEY_SCAN_CODES ! i) = 6
      \<and> list_all (\<lambda>c. c = 0 \<or> frame_ok (line_bits (ucast c))) (KEY_SCAN_CODES ! i)"
    using table_shape assms(1) by (simp add: list_all_length)
  then have "KEY_SCAN_CODES ! i ! j = 0 \<or> frame_ok (line_bits (ucast (KEY_SCAN_CODES ! i ! j)))"
    using assms(2) by (simp add: list_all_length)
  with assms(3) show ?thesis
    by simp
qed

subsection \<open>Well-formed frames\<close>

text \<open>
  C2, as the claim states it, fails for the zero entries of the table: the scanner
  does not skip them, and when the row bit of such a position reads high (here column
  3, row 0) it passes the entry to \<open>transmit\<close>; the eleven bits clocked out are all
  0, so the stop bit is 0 and the parity is even.
\<close>

theorem zero_entry_frame_malformed:
  "KEY_SCAN_CODES ! 3 ! 0 = 0
   \<and> frames (emitted (boot released) (visit_key 3 0 0x01 9 (boot released))) = [0]
   \<and> \<not> frame_ok (line_bits 0)"
proof -
  have "\<not> frame_ok (line_bits 0)"
    by code_simp
  then show ?thesis
    by (simp add: KEY_SCAN_CODES_def visit_key_def scanCell_def boot_def released_def
        sendCode_def transmit_def delay_us_def emitted_def)
qed

text \<open>
  C2, amended: every frame the scanner passes to the transmitter at a position whose
  table entry is not zero (the entry itself and the prefixes \<open>EXT\<close> and \<open>REL\<close>),
  and every frame the command interpreter passes to it in reply to any command, has
  start bit 0, stop bit 1 and odd parity over data and parity bit.
\<close>

theorem frames_well_formed:
  "(i < 14 \<and> j < 6 \<and> KEY_SCAN_CODES ! i ! j \<noteq> 0 \<longrightarrow>
      (\<forall>k \<in> set (frames (emitted st (visit_key i j P0 t st))). frame_ok (line_bits k)))
   \<and> (\<forall>k \<in> set (frames (emitted st (state_of (followCommand c pins st)))).
        frame_ok (line_bits k))"
proof -
  have const: "frame_ok (line_bits EXT)" "frame_ok (line_bits REL)" "frame_ok (line_bits ACK)"
    "frame_ok (line_bits RE)" "frame_ok (line_bits 0x03ee)" "frame_ok (line_bits 0x0341)"
    "frame_ok (line_bits 0x02ab)" "frame_ok (line_bits 0x0283)" "frame_ok (line_bits 0x03aa)"
    by (simp_all only: frame_EXT frame_REL frame_ACK frame_RE frame_echo frame_set2 frame_id1
        frame_id2 frame_bat ps2_frame_ok)
  have scan: "\<forall>k \<in> set (frames (emitted st (visit_key i j P0 t st))). frame_ok (line_bits k)"
    if "i < 14" "j < 6" "KEY_SCAN_CODES ! i ! j \<noteq> 0"
  proof -
    have entry: "frame_ok (line_bits (ucast (KEY_SCAN_CODES ! i ! j)))"
      using that by (rule table_entry_ok)
    show ?thesis
    proof (cases "fst (scanCell (REPEAT_RATE st) (REPEAT_DELAY st) P0 j t (keyStamps st (i, j)))")
      case None
      then show ?thesis
        by (simp add: emitted_visit_key)
    next
      case (Some k)
      then show ?thesis
        using emitted_sendCode [of st "KEY_SCAN_CODES ! i ! j" "keyState_of k"] entry const
        by (auto simp: emitted_visit_key)
    qed
  qed
  have cmd: "\<forall>k \<in> set (frames (emitted st (state_of (followCommand c pins st)))).
      frame_ok (line_bits k)"
    using followCommand_replies [of st c pins] const by auto
  from scan cmd show ?thesis
    by blast
qed

theorem frames_well_formed_witness:
  "(1 :: nat) < 14 \<and> (2 :: nat) < 6 \<and> KEY_SCAN_CODES ! 1 ! 2 \<noteq> 0
   \<and> frames (emitted (boot released) (visit_key 1 2 0x04 5 (boot released))) = [0x021c]
   \<and> frame_ok (line_bits 0x021c)
   \<and> frames (emitted (boot released) (state_of (followCommand 0xee [] (boot released)))) = [0x03ee]
   \<and> frame_ok (line_bits 0x03ee)"
proof -
  have e: "KEY_SCAN_CODES ! 1 ! 2 = 0x021c"
    by (simp add: KEY_SCAN_CODES_def)
  have v: "frames (emitted (boot released) (visit_key 1 2 0x04 5 (boot released))) = [0x021c]"
    by (simp add: KEY_SCAN_CODES_def visit_key_def scanCell_def boot_def released_def
        sendCode_def transmit_def delay_us_def emitted_def)
  have f: "frames (emitted (boot released) (state_of (followCommand 0xee [] (boot released))))
      = [0x03ee]"
    by (simp add: followCommand_ee transmit_def emitted_def)
  show ?thesis
    using frames_well_formed [of 1 2 "boot released" "0x04" 5 "0xee" "[]"] e v f
    by simp
qed

subsection \<open>Zero entries of the table\<close>

text \<open>
  C3, as the claim states it, fails: the scanner never looks at the table entry before
  it calls \<open>sendCode\<close>. At column 1, row 5, whose entry is zero, a high row bit makes
  it transmit the all-zero frame as a make code, and the next low reading makes it
  transmit \<open>REL\<close> and the all-zero frame as a break code.
\<close>

theorem zero_entry_transmitted:
  "KEY_SCAN_CODES ! 1 ! 5 = 0
   \<and> wire (visit_key 1 5 0x20 7 (boot released)) = [Frame 0, Delay 336]
   \<and> wire (visit_key 1 5 0x00 8 (visit_key 1 5 0x20 7 (boot released)))
       = [Frame 0, Delay 336, Frame 0x03F0, Delay 336, Frame 0, Delay 336]"
  by (simp add: KEY_SCAN_CODES_def visit_key_def scanCell_def boot_def released_def sendCode_def
      transmit_def delay_us_def BREAK_def REL_def)

text \<open>
  C3, amended: for every matrix position whose table entry is zero, a visit that finds
  the row bit low and the position's \<open>keyStamps\<close> cell zero transmits nothing and
  changes nothing; so from a cleared cell, and for any sequence of visits that all read
  the row bit low, no frame is transmitted for the position and its cell stays zero.
  The scanner does not test the entry: whatever it transmits for such a position is the
  all-zero frame, alone (make) or after \<open>REL\<close> (break).
\<close>

theorem zero_entry_visits:
  assumes "i < 14" and "j < 6" and "KEY_SCAN_CODES ! i ! j = 0"
  shows "(P0 AND push_bit j 0x01 = 0 \<and> keyStamps st (i, j) = 0 \<longrightarrow> visit_key i j P0 t st = st)
       \<and> ((\<forall>v \<in> set vs. fst v AND push_bit j 0x01 = 0) \<and> keyStamps st (i, j) = 0 \<longrightarrow>
            fold (\<lambda>v. visit_key i j (fst v) (snd v)) vs st = st)
       \<and> emitted st (visit_key i j P0 t st) \<in>
            {[], [Frame 0, Delay BREAK], [Frame REL, Delay BREAK, Frame 0, Delay BREAK]}"
proof -
  have idle: "visit_key i j p t' st = st"
    if "p AND push_bit j 0x01 = 0" "keyStamps st (i, j) = 0" for p t'
    using that by (simp add: visit_key_def scanCell_idle fun_upd_idem)
  have run: "fold (\<lambda>v. visit_key i j (fst v) (snd v)) vs st = st"
    if "\<forall>v \<in> set vs. fst v AND push_bit j 0x01 = 0" "keyStamps st (i, j) = 0"
    using that by (induction vs) (simp_all add: idle)
  have sent: "emitted st (visit_key i j P0 t st) \<in>
      {[], [Frame 0, Delay BREAK], [Frame REL, Delay BREAK, Frame 0, Delay BREAK]}"
    unfolding emitted_visit_key assms(3)
    by (simp add: sendCode_def emitted_def transmit_def delay_us_def
        split: option.splits call.splits)
  from idle run sent show ?thesis
    by blast
qed

theorem zero_entry_visits_witness:
  "(1 :: nat) < 14 \<and> (5 :: nat) < 6 \<and> KEY_SCAN_CODES ! 1 ! 5 = 0
   \<and> (0x1f :: uchar) AND push_bit 5 0x01 = 0 \<and> keyStamps (boot released) (1, 5) = 0
   \<and> visit_key 1 5 0x1f 7 (boot released) = boot released
   \<and> fold (\<lambda>v. visit_key 1 5 (fst v) (snd v)) [(0x1f, 7), (0x00, 8)] (boot released)
       = boot released"
proof -
  have h: "(1 :: nat) < 14" "(5 :: nat) < 6" "KEY_SCAN_CODES ! 1 ! 5 = 0"
    by (simp_all add: KEY_SCAN_CODES_def)
  have p: "(0x1f :: uchar) AND push_bit 5 0x01 = 0" "(0x00 :: uchar) AND push_bit 5 0x01 = 0"
    "keyStamps (boot released) (1, 5) = 0"
    by (simp_all add: boot_def released_def)
  show ?thesis
    using zero_entry_visits [OF h, of "0x1f" "boot released" 7 "[(0x1f, 7), (0x00, 8)]"]
      zero_entry_visits [OF h, of "0x00" "boot released" 8 "[]"] h p
    by simp
qed

subsection \<open>Make and break\<close>

lemma run_key_balance:
  assumes "run_key j vs s = (rs, final)"
    and "\<forall>r \<in> set rs. fst r = Some Press \<longrightarrow> snd r \<noteq> 0"
  shows "first_makes rs + (if s \<noteq> 0 then 1 else 0) = breaks rs + (if final \<noteq> 0 then 1 else 0)"
  using assms
proof (induction vs arbitrary: s rs)
  case Nil
  then show ?case
    by (simp add: first_makes_def breaks_def)
next
  case (Cons v vs)
  obtain c s' where r: "scanCell (v_rate v) (v_delay v) (v_P0 v) j (v_tick v) s = (c, s')"
    by (cases "scanCell (v_rate v) (v_delay v) (v_P0 v) j (v_tick v) s")
  obtain rs' where t: "run_key j vs s' = (rs', final)" and rs: "rs = (c, s') # rs'"
    using Cons.prems(1) r by (auto simp: Let_def split: prod.splits)
  have ok: "c = Some Press \<longrightarrow> s' \<noteq> 0"
    and ok': "\<forall>r \<in> set rs'. fst r = Some Press \<longrightarrow> snd r \<noteq> 0"
    using Cons.prems(2) rs by auto
  have step: "(if c = Some Press then 1 else 0) + (if s \<noteq> 0 then 1 else 0)
         = (if c = Some Release then 1 else 0) + (if s' \<noteq> 0 then 1 else (0::nat))"
    using r ok by (rule scanCell_balance)
  have ih: "first_makes rs' + (if s' \<noteq> 0 then 1 else 0)
      = breaks rs' + (if final \<noteq> 0 then 1 else 0)"
    using t ok' by (rule Cons.IH)
  have f: "first_makes rs = (if c = Some Press then 1 else 0) + first_makes rs'"
    and b: "breaks rs = (if c = Some Release then 1 else 0) + breaks rs'"
    by (simp_all add: rs first_makes_def breaks_def)
  show ?case
    using step ih unfolding f b by (simp split: if_splits)
qed

lemma run_key_results:
  assumes "run_key j vs s = (rs, final)" and "r \<in> set rs"
  shows "\<exists>R D P0 t s0. r = scanCell R D P0 j t s0"
  using assms
proof (induction vs arbitrary: s rs)
  case Nil
  then show ?case by simp
next
  case (Cons v vs)
  then show ?case
    by (auto simp: Let_def split: prod.splits) blast+
qed

lemma makes_split:
  "makes rs = first_makes rs + length (filter (\<lambda>r. fst r = Some Repeat) rs)"
  by (induction rs) (auto simp: makes_def first_makes_def)

text \<open>
  C4, as the claim states it, fails: a held key gets further make sequences from the
  typematic engine. With the configuration of boot (delay 100, rate 50), key (0, 0)
  pressed at tick 1 and still down at ticks 101 and 0 (after the wrap) has two make
  sequences, no break sequence and a nonzero state.
\<close>

theorem typematic_unbalanced:
  "run_key 0 [\<lparr>v_rate = 50, v_delay = 100, v_P0 = 0x01, v_tick = 1\<rparr>,
              \<lparr>v_rate = 50, v_delay = 100, v_P0 = 0x01, v_tick = 101\<rparr>,
              \<lparr>v_rate = 50, v_delay = 100, v_P0 = 0x01, v_tick = 0\<rparr>] 0
     = ([(Some Press, 1), (None, 0x81), (Some Repeat, 0x80)], 0x80)
   \<and> \<not> balanced [(Some Press, 1), (None, 0x81), (Some Repeat, 0x80)] 0x80"
proof -
  have "run_key 0 [\<lparr>v_rate = 50, v_delay = 100, v_P0 = 0x01, v_tick = 1\<rparr>,
              \<lparr>v_rate = 50, v_delay = 100, v_P0 = 0x01, v_tick = 101\<rparr>,
              \<lparr>v_rate = 50, v_delay = 100, v_P0 = 0x01, v_tick = 0\<rparr>] 0
     = ([(Some Press, 1), (None, 0x81), (Some Repeat, 0x80)], 0x80)"
    by code_simp
  then show ?thesis
    by (simp add: balanced_def makes_def breaks_def)
qed

text \<open>
  C4, amended: for every key and every sequence of scanner visits to it that starts
  from the released state, and in which the tick stored when a press is recorded is not
  zero, the number of make sequences sent for a press (cell zero, row bit high) equals
  the number of break sequences plus one if the key's state is nonzero. All other make
  sequences are typematic repeats, sent only while the state is nonzero and leaving it
  at 128 or more. A visit that takes the state from nonzero to zero sends a break
  sequence.
\<close>

theorem make_break_balance:
  assumes "run_key j vs 0 = (rs, final)"
    and "\<forall>r \<in> set rs. fst r = Some Press \<longrightarrow> snd r \<noteq> 0"
  shows "first_makes rs = breaks rs + (if final \<noteq> 0 then 1 else 0)
       \<and> makes rs = first_makes rs + length (filter (\<lambda>r. fst r = Some Repeat) rs)
       \<and> (\<forall>r \<in> set rs. fst r = Some Repeat \<longrightarrow> snd r \<ge> 128)
       \<and> (\<forall>R D P0 t s. s \<noteq> 0 \<and> snd (scanCell R D P0 j t s) = 0 \<longrightarrow>
            fst (scanCell R D P0 j t s) = Some Release)"
proof -
  have "first_makes rs = breaks rs + (if final \<noteq> 0 then 1 else 0)"
    using run_key_balance [OF assms] by simp
  moreover have "\<forall>r \<in> set rs. fst r = Some Repeat \<longrightarrow> snd r \<ge> 128"
  proof (intro ballI impI)
    fix r
    assume r: "r \<in> set rs" and c: "fst r = Some Repeat"
    from run_key_results [OF assms(1) r] obtain R D P0 t s0
      where "r = scanCell R D P0 j t s0"
      by blast
    with c have "scanCell R D P0 j t s0 = (Some Repeat, snd r)"
      by (metis prod.collapse)
    then show "snd r \<ge> 128"
      using scanCell_repeat by blast
  qed
  ultimately show ?thesis
    using makes_split scanCell_to_zero by blast
qed

theorem make_break_balance_witness:
  "run_key 2 [\<lparr>v_rate = 50, v_delay = 100, v_P0 = 0x04, v_tick = 5\<rparr>,
              \<lparr>v_rate = 50, v_delay = 100, v_P0 = 0x00, v_tick = 6\<rparr>,
              \<lparr>v_rate = 50, v_delay = 100, v_P0 = 0x04, v_tick = 9\<rparr>] 0
     = ([(Some Press, 5), (Some Release, 0), (Some Press, 9)], 9)
   \<and> first_makes [(Some Press, 5), (Some Release, 0), (Some Press, 9)] = 2
   \<and> breaks [(Some Press, 5), (Some Release, 0), (Some Press, 9)] = 1"
proof -
  have r: "run_key 2 [\<lparr>v_rate = 50, v_delay = 100, v_P0 = 0x04, v_tick = 5\<rparr>,
              \<lparr>v_rate = 50, v_delay = 100, v_P0 = 0x00, v_tick = 6\<rparr>,
              \<lparr>v_rate = 50, v_delay = 100, v_P0 = 0x04, v_tick = 9\<rparr>] 0
     = ([(Some Press, 5), (Some Release, 0), (Some Press, 9)], 9)"
    by code_simp
  have n: "\<forall>r \<in> set [(Some Press, 5), (Some Release, 0), (Some Press, 9 :: uchar)].
      fst r = Some Press \<longrightarrow> snd r \<noteq> 0"
    by simp
  have b: "breaks [(Some Press, 5), (Some Release, 0), (Some Press, 9)] = 1"
    by (simp add: breaks_def)
  show ?thesis
    using make_break_balance [OF r n] r b
    by simp
qed

text \<open>
  The condition on the stored tick is needed. A press recorded while the counter is at
  0 stores the stamp 0, which is the mark of a released key: the make sequence has been
  sent, the state stays zero, and the release that follows sends no break sequence.
\<close>

lemma press_at_tick_zero:
  "run_key 2 [\<lparr>v_rate = 50, v_delay = 100, v_P0 = 0x04, v_tick = 0\<rparr>,
              \<lparr>v_rate = 50, v_delay = 100, v_P0 = 0x00, v_tick = 1\<rparr>] 0
     = ([(Some Press, 0), (None, 0)], 0)"
  by code_simp

subsection \<open>Elapsed time across the wrap of the tick counter\<close>

text \<open>The tick counter counts modulo 128.\<close>

lemma timer2Int_mod_128:
  assumes "e < 128"
  shows "timer2Int e < 128 \<and> uint (timer2Int e) = (uint e + 1) mod 128"
proof -
  have u: "uint e < 128"
    using assms by (simp add: word_less_def)
  have p: "uint (e + 1) = uint e + 1"
    using u by (simp add: uint_word_ariths)
  show ?thesis
  proof (cases "e = 127")
    case True
    then show ?thesis
      by (simp add: timer2Int_def)
  next
    case False
    then have "uint e \<noteq> 127"
      unfolding word_uint_eq_iff by simp
    with u p have "uint (e + 1) < 128"
      by simp
    then show ?thesis
      using p by (simp add: timer2Int_def Let_def word_less_def word_le_def not_le)
  qed
qed

text \<open>
  After a wrap of the counter the value compared with \<open>REPEAT_DELAY\<close> (line 337) is
  one less than the difference modulo 128.
\<close>

lemma elapsed_wrapped_short:
  assumes "s < 128" and "t < s"
  shows "elapsed_wrapped s t = (uint t - uint (s AND 0x7f)) mod 128 - 1"
proof -
  have m: "s AND 0x7f = s"
    using less_mask_eq [of s 7] assms(1) by (simp add: mask_eq_exp_minus_1)
  have u: "uint s < 128" "uint t < uint s" "0 \<le> uint t"
    using assms by (simp_all add: word_less_def)
  have "(uint t - uint s) mod 128 = (uint t - uint s + 128) mod 128"
    by simp
  also have "\<dots> = uint t - uint s + 128"
    using u by (intro mod_pos_pos_trivial; linarith)
  finally have "(uint t - uint s) mod 128 = uint t - uint s + 128" .
  then show ?thesis
    by (simp add: m elapsed_wrapped_def)
qed

text \<open>
  C5. The claim: when the tick counter has wrapped (\<open>t < s\<close>, with \<open>s\<close> the
  stored stamp, bit 7 clear), the elapsed time the scanner compares with
  \<open>REPEAT_DELAY\<close> is \<open>(t - s) mod 128\<close>. The code computes
  \<open>(127 - s) + t\<close>, which is one less: the counter has the 128 values 0 to 127, so
  the elapsed time across the wrap is \<open>(128 - s) + t\<close>. With stamp 120, tick 17
  and \<open>REPEAT_DELAY = 25\<close>, 25 ticks have passed; the code computes 24 and the key
  does not enter the repeating phase. It does so one tick later.
\<close>

theorem wrap_elapsed_off_by_one:
  "elapsed_wrapped 120 17 = 24
   \<and> (uint (17 :: uchar) - uint ((120 :: uchar) AND 0x7f)) mod 128 = 25
   \<and> scanCell 50 25 0x01 0 17 120 = (None, 120)
   \<and> scanCell 50 25 0x01 0 18 120 = (None, 0xf8)"
  by (simp add: elapsed_wrapped_def scanCell_def elapsed_direct_def)

end
